theory Spec2Isabelle
  imports Main "HOL-Library.Sublist"
begin

section \<open>The notebook's data\<close>

text \<open>
  The notebook \<^verbatim>\<open>Text-Summarization-HuggingFace-Async-Inference.ipynb\<close> is a sequence of
  cells that call three outside parties: the object store (S3, through
  \<^verbatim>\<open>sm_session.read_s3_file\<close>), the asynchronous inference service (through
  \<^verbatim>\<open>sm_runtime.invoke_endpoint_async\<close>) and the Python runtime (\<^verbatim>\<open>urllib.parse.urlparse\<close>,
  \<^verbatim>\<open>time.sleep\<close>, \<^verbatim>\<open>print\<close>). The cells modelled here are the invocation cell, the function
  \<^verbatim>\<open>get_output\<close> and the two bulk cells (\<^verbatim>\<open>range(1,10)\<close> and \<^verbatim>\<open>range(1,1000)\<close>).

  An exception is a value of type \<open>error\<close>. \<^verbatim>\<open>get_output\<close> tells a botocore
  \<^verbatim>\<open>ClientError\<close> from every other exception, and reads \<^verbatim>\<open>e.response['Error']['Code']\<close>
  of a \<^verbatim>\<open>ClientError\<close>: the constructor \<open>ClientError\<close> carries that code (the S3 error
  parser of botocore always fills it in).
\<close>

datatype error = ClientError string | OtherError string

text \<open>
  The result of \<^verbatim>\<open>urlparse\<close> is a named tuple; \<^verbatim>\<open>get_output\<close> reads the attributes
  \<^verbatim>\<open>netloc\<close> and \<^verbatim>\<open>path\<close> only. The response of \<^verbatim>\<open>invoke_endpoint_async\<close> is a
  dictionary of which the cells read the entry \<^verbatim>\<open>OutputLocation\<close>.
\<close>

record ParseResult =
  netloc :: string
  path :: string

record response =
  OutputLocation :: string

text \<open>
  Every call that leaves the Python process is recorded as an event, oldest first.
  \<open>Invoke\<close> carries \<^verbatim>\<open>EndpointName\<close>, \<^verbatim>\<open>InputLocation\<close> and \<^verbatim>\<open>ContentType\<close>;
  \<open>ReadS3\<close> carries \<^verbatim>\<open>bucket\<close> and \<^verbatim>\<open>key_prefix\<close>.
\<close>

datatype event =
    Invoke string string string
  | ReadS3 string string
  | Print string
  | Sleep nat

type_synonym storage = "string \<times> string \<Rightarrow> string option"

text \<open>
  The state threaded through the cells: the object store (bucket and key to content),
  the events so far, and the two global variables of the notebook that the bulk cells
  assign and that outlive them, \<^verbatim>\<open>inferences\<close> and \<^verbatim>\<open>output\<close> (the field \<open>output_var\<close>, \<open>None\<close> while unbound).
  The other globals the cells assign (\<^verbatim>\<open>i\<close>, \<^verbatim>\<open>start\<close>, \<^verbatim>\<open>response\<close>,
  \<^verbatim>\<open>output_location\<close>, \<^verbatim>\<open>input_file\<close>) are read only inside the iteration that
  assigns them and appear as bound variables of the definitions.
\<close>

record state =
  s3 :: storage
  trace :: "event list"
  inferences :: "(string \<times> string) list"
  output_var :: "string option"

text \<open>
  What the outside parties do is a parameter of every definition. The index \<open>t\<close> of an
  oracle is the number of events before the call it answers, so that each call of a run
  has an answer of its own and every behaviour of the outside is some \<open>env\<close>:
  \<^item> \<open>urlparse\<close> is \<^verbatim>\<open>urllib.parse.urlparse\<close>, which can raise (\<^verbatim>\<open>ValueError\<close>);
  \<^item> \<open>outside t\<close> is what the other writers of the object store (the inference service
    delivering results) do to it while call \<open>t\<close> is under way;
  \<^item> \<open>s3_failure t\<close> is the exception, if any, with which the store answers read \<open>t\<close>
    for a reason of its own (access denied, throttling, no connection);
  \<^item> \<open>service t\<close> answers submission \<open>t\<close>: a response or an exception;
  \<^item> \<open>repr\<close> is the text \<^verbatim>\<open>print\<close> shows for a response dictionary.
\<close>

record env =
  urlparse :: "string \<Rightarrow> error + ParseResult"
  outside :: "nat \<Rightarrow> storage \<Rightarrow> storage"
  s3_failure :: "nat \<Rightarrow> error option"
  service :: "nat \<Rightarrow> string \<Rightarrow> string \<Rightarrow> string \<Rightarrow> error + response"
  repr :: "response \<Rightarrow> string"

section \<open>The outside calls\<close>

text \<open>One call: the other writers act on the store, the call is recorded.\<close>

definition effect :: "env \<Rightarrow> event \<Rightarrow> state \<Rightarrow> state" where
  "effect env ev st =
     st\<lparr>s3 := outside env (length (trace st)) (s3 st), trace := trace st @ [ev]\<rparr>"

definition sleep :: "env \<Rightarrow> nat \<Rightarrow> state \<Rightarrow> state" where
  "sleep env secs st = effect env (Sleep secs) st"

definition print :: "env \<Rightarrow> string \<Rightarrow> state \<Rightarrow> state" where
  "print env line st = effect env (Print line) st"

text \<open>
  Modelled from the spec: \<^verbatim>\<open>sagemaker.session.Session.read_s3_file\<close> is library code. The
  spec's object store has \<open>get(location) -> bytes\<close>, "raising a distinguishable not found
  condition when the object is absent"; with boto3 that condition is a \<^verbatim>\<open>ClientError\<close>
  whose code is \<^verbatim>\<open>NoSuchKey\<close>. The read does not write.
\<close>

definition read_s3_file :: "env \<Rightarrow> string \<Rightarrow> string \<Rightarrow> state \<Rightarrow> (error + string) \<times> state" where
  "read_s3_file env bucket key_prefix st =
     (let st1 = effect env (ReadS3 bucket key_prefix) st
      in (case s3_failure env (length (trace st)) of
            Some e \<Rightarrow> Inl e
          | None \<Rightarrow>
              (case s3 st1 (bucket, key_prefix) of
                 None \<Rightarrow> Inl (ClientError ''NoSuchKey'')
               | Some body \<Rightarrow> Inr body),
          st1))"

text \<open>
  Modelled from the spec: \<^verbatim>\<open>invoke_endpoint_async\<close> is the service's client. The spec's
  service has \<open>submit(target, input_reference, content_type) -> { output_reference }\<close>
  and can refuse a submission.
\<close>

definition invoke_endpoint_async ::
    "env \<Rightarrow> string \<Rightarrow> string \<Rightarrow> string \<Rightarrow> state \<Rightarrow> (error + response) \<times> state" where
  "invoke_endpoint_async env EndpointName InputLocation ContentType st =
     (service env (length (trace st)) EndpointName InputLocation ContentType,
      effect env (Invoke EndpointName InputLocation ContentType) st)"

section \<open>The cells\<close>

text \<open>
  \<^verbatim>\<open>bucket_prefix = "async-inference-demo"\<close>,
  \<^verbatim>\<open>"S3OutputPath": f"s3://{s3_bucket}/{bucket_prefix}/output"\<close> and
  \<^verbatim>\<open>input_s3_location = f"s3://{s3_bucket}/{bucket_prefix}/input/input.json"\<close>;
  \<^verbatim>\<open>s3_bucket\<close> is the session's default bucket, a parameter here.
\<close>

definition bucket_prefix :: string where
  "bucket_prefix = ''async-inference-demo''"

definition S3OutputPath :: "string \<Rightarrow> string" where
  "S3OutputPath s3_bucket = ''s3://'' @ s3_bucket @ ''/'' @ bucket_prefix @ ''/output''"

definition input_s3_location :: "string \<Rightarrow> string" where
  "input_s3_location s3_bucket =
     ''s3://'' @ s3_bucket @ ''/'' @ bucket_prefix @ ''/input/input.json''"

text \<open>
  The invocation cell:
  \<^verbatim>\<open>
  response = sm_runtime.invoke_endpoint_async(
      EndpointName=endpoint_name, InputLocation=input_s3_location,ContentType="application/json")
  print(response)
  output_location = response['OutputLocation']
  print(f"OutputLocation: {output_location}")
  \<close>
  The value is the \<^verbatim>\<open>output_location\<close> the cell leaves behind, or the exception.
\<close>

definition invoke_cell :: "env \<Rightarrow> string \<Rightarrow> string \<Rightarrow> state \<Rightarrow> (error + string) \<times> state" where
  "invoke_cell env endpoint_name input_location st =
     (case invoke_endpoint_async env endpoint_name input_location ''application/json'' st of
        (Inl e, st1) \<Rightarrow> (Inl e, st1)
      | (Inr response, st1) \<Rightarrow>
          (let st2 = print env (repr env response) st1;
               output_location = OutputLocation response
           in (Inr output_location, print env (''OutputLocation: '' @ output_location) st2)))"

text \<open>
  \<^verbatim>\<open>
  def get_output(output_location):
      output_url = urllib.parse.urlparse(output_location)
      bucket = output_url.netloc
      key = output_url.path[1:]
      while True:
          try:
              return sm_session.read_s3_file(bucket=output_url.netloc, key_prefix=output_url.path[1:])
          except ClientError as e:
              if e.response['Error']['Code'] == 'NoSuchKey':
                  print("waiting for output...")
                  time.sleep(2)
                  continue
              raise
  \<close>
  The loop has no bound, so it is a partial function: \<open>None\<close> is "does not return".
  An exception that is not a \<^verbatim>\<open>ClientError\<close> passes the \<^verbatim>\<open>except\<close> clause untouched.
\<close>

partial_function (option) get_output_loop ::
    "env \<Rightarrow> string \<Rightarrow> string \<Rightarrow> state \<Rightarrow> ((error + string) \<times> state) option" where
  "get_output_loop env bucket key st =
     (case read_s3_file env bucket key st of
        (Inr body, st1) \<Rightarrow> Some (Inr body, st1)
      | (Inl (ClientError code), st1) \<Rightarrow>
          if code = ''NoSuchKey''
          then get_output_loop env bucket key
                 (sleep env 2 (print env ''waiting for output...'' st1))
          else Some (Inl (ClientError code), st1)
      | (Inl (OtherError msg), st1) \<Rightarrow> Some (Inl (OtherError msg), st1))"

definition get_output :: "env \<Rightarrow> string \<Rightarrow> state \<Rightarrow> ((error + string) \<times> state) option" where
  "get_output env output_location st =
     (case urlparse env output_location of
        Inl e \<Rightarrow> Some (Inl e, st)
      | Inr output_url \<Rightarrow>
          get_output_loop env (netloc output_url) (drop 1 (path output_url)) st)"

text \<open>
  The two bulk cells differ in the bound of \<^verbatim>\<open>range\<close> only:
  \<^verbatim>\<open>
  inferences = []
  for i in range(1,10):                       # range(1,1000) in the second cell
      start = time.time()
      response = sm_runtime.invoke_endpoint_async(
          EndpointName=endpoint_name,
          InputLocation=input_s3_location,
          ContentType="application/json" )
      output_location = response["OutputLocation"]
      inferences += [(input_s3_location, output_location)]

  print("\Async invocations for Pytorch serving default: \n")

  for input_file, output_location in inferences:
      output = get_output(output_location)
      print(f"Input File: {input_file}, Output location: {output_location}")
  \<close>
  The first loop runs over the values of \<^verbatim>\<open>range\<close>; \<^verbatim>\<open>start\<close> is never read. An
  exception leaves either loop, and the cell, at once. The second loop inherits the
  partiality of \<^verbatim>\<open>get_output\<close>.
\<close>

fun submit_loop :: "env \<Rightarrow> string \<Rightarrow> string \<Rightarrow> nat list \<Rightarrow> state \<Rightarrow> (error + unit) \<times> state" where
  "submit_loop env endpoint_name s3_bucket [] st = (Inr (), st)"
| "submit_loop env endpoint_name s3_bucket (i # rest) st =
     (case invoke_endpoint_async env endpoint_name (input_s3_location s3_bucket)
             ''application/json'' st of
        (Inl e, st1) \<Rightarrow> (Inl e, st1)
      | (Inr response, st1) \<Rightarrow>
          (let output_location = OutputLocation response
           in submit_loop env endpoint_name s3_bucket rest
                (st1\<lparr>inferences :=
                   inferences st1 @ [(input_s3_location s3_bucket, output_location)]\<rparr>)))"

definition report :: "string \<Rightarrow> string \<Rightarrow> string" where
  "report input_file output_location =
     ''Input File: '' @ input_file @ '', Output location: '' @ output_location"

fun collect_loop :: "env \<Rightarrow> (string \<times> string) list \<Rightarrow> state \<Rightarrow> ((error + unit) \<times> state) option" where
  "collect_loop env [] st = Some (Inr (), st)"
| "collect_loop env ((input_file, output_location) # rest) st =
     (case get_output env output_location st of
        None \<Rightarrow> None
      | Some (Inl e, st1) \<Rightarrow> Some (Inl e, st1)
      | Some (Inr body, st1) \<Rightarrow>
          collect_loop env rest
            (print env (report input_file output_location) (st1\<lparr>output_var := Some body\<rparr>)))"

definition banner :: string where
  "banner = CHR 0x5C # ''Async invocations for Pytorch serving default: '' @ [CHR 0x0A]"

definition batch_cell ::
    "env \<Rightarrow> nat \<Rightarrow> string \<Rightarrow> string \<Rightarrow> state \<Rightarrow> ((error + unit) \<times> state) option" where
  "batch_cell env stop endpoint_name s3_bucket st =
     (case submit_loop env endpoint_name s3_bucket [1..<stop] (st\<lparr>inferences := []\<rparr>) of
        (Inl e, st1) \<Rightarrow> Some (Inl e, st1)
      | (Inr u, st1) \<Rightarrow> collect_loop env (inferences st1) (print env banner st1))"

text \<open>"Trigger 10 asynchronous requests on a single instance" and "Trigger 1000
  asynchronous invocations with autoscaling", as the notebook heads the two cells.\<close>

definition trigger_10_cell :: "env \<Rightarrow> string \<Rightarrow> string \<Rightarrow> state \<Rightarrow> ((error + unit) \<times> state) option" where
  "trigger_10_cell env = batch_cell env 10"

definition trigger_1000_cell :: "env \<Rightarrow> string \<Rightarrow> string \<Rightarrow> state \<Rightarrow> ((error + unit) \<times> state) option" where
  "trigger_1000_cell env = batch_cell env 1000"

section \<open>Vocabulary of the statements\<close>

text \<open>
  The not-found answer of a read; the state after one failed poll (the read, the
  message, the sleep) and after \<open>n\<close> of them; the answer of the read that follows \<open>n\<close>
  failed polls; and the events of a poll that returns after \<open>n\<close> retries.
\<close>

definition not_found :: "error + string" where
  "not_found = Inl (ClientError ''NoSuchKey'')"

definition retry :: "env \<Rightarrow> string \<Rightarrow> string \<Rightarrow> state \<Rightarrow> state" where
  "retry env bucket key st =
     sleep env 2 (print env ''waiting for output...'' (snd (read_s3_file env bucket key st)))"

definition attempt :: "env \<Rightarrow> string \<Rightarrow> string \<Rightarrow> nat \<Rightarrow> state \<Rightarrow> (error + string) \<times> state" where
  "attempt env bucket key n st = read_s3_file env bucket key ((retry env bucket key ^^ n) st)"

definition poll_events :: "string \<Rightarrow> string \<Rightarrow> nat \<Rightarrow> event list" where
  "poll_events bucket key n =
     concat (replicate n [ReadS3 bucket key, Print ''waiting for output...'', Sleep 2])
     @ [ReadS3 bucket key]"

text \<open>The store after the other writers alone have acted during calls \<open>t, \<dots>, t + n - 1\<close>.\<close>

primrec evolve :: "env \<Rightarrow> nat \<Rightarrow> nat \<Rightarrow> storage \<Rightarrow> storage" where
  "evolve env t 0 s = s"
| "evolve env t (Suc n) s = evolve env (Suc t) n (outside env t s)"

text \<open>
  The bucket and key \<^verbatim>\<open>get_output\<close> polls for a locator; the events of a collection
  loop over a record in which the poll of entry \<open>j\<close> returns after \<open>ns ! j\<close> retries; the
  events that are submissions.
\<close>

definition locator :: "env \<Rightarrow> string \<Rightarrow> string \<times> string" where
  "locator env output_location =
     (case urlparse env output_location of
        Inr output_url \<Rightarrow> (netloc output_url, drop 1 (path output_url))
      | Inl e \<Rightarrow> ([], []))"

fun collect_events :: "env \<Rightarrow> (string \<times> string) list \<Rightarrow> nat list \<Rightarrow> event list" where
  "collect_events env ((input_file, output_location) # rest) (n # ns) =
     poll_events (fst (locator env output_location)) (snd (locator env output_location)) n
     @ [Print (report input_file output_location)] @ collect_events env rest ns"
| "collect_events env [] ns = []"
| "collect_events env rest [] = []"

fun is_submission :: "event \<Rightarrow> bool" where
  "is_submission (Invoke ep inp ct) = True"
| "is_submission (ReadS3 b k) = False"
| "is_submission (Print line) = False"
| "is_submission (Sleep secs) = False"

text \<open>
  The mapping the spec describes ("record its content keyed by the pair's original
  input_reference"): a dictionary filled entry by entry, a later entry replacing an
  earlier one under the same key. The notebook builds no such mapping; the definition
  follows the spec's words and is used to say what it would hold.
\<close>

definition spec_result_mapping :: "(string \<times> 'v) list \<Rightarrow> (string \<rightharpoonup> 'v)" where
  "spec_result_mapping record = foldl (\<lambda>m (input_reference, v). m(input_reference \<mapsto> v)) Map.empty record"

section \<open>Sample runs\<close>

text \<open>
  Concrete outsides and a concrete start, on which the statements below are evaluated.
  \<open>sample_urlparse\<close> splits an \<^verbatim>\<open>s3://bucket/key\<close> locator the way \<^verbatim>\<open>urlparse\<close> does
  when the locator has no query and no fragment. In \<open>late_env\<close> the result object
  appears while call 3 (the second read of a poll that starts at call 0) is under way; in
  \<open>never_env\<close> nobody ever writes; in \<open>prompt_env\<close> every submission is accepted, with
  an output locator of its own under the configured output path, and every object is
  there from the first call on, its content naming its key. \<open>sample_output t\<close> is the
  locator \<open>prompt_env\<close> answers to submission \<open>t\<close>. \<open>refusing_env\<close> is \<open>prompt_env\<close>
  with submission 2 refused, \<open>denying_env\<close> is \<open>prompt_env\<close> with read 5 denied.
\<close>

definition sample_urlparse :: "string \<Rightarrow> error + ParseResult" where
  "sample_urlparse url =
     (if take 5 url = ''s3://''
      then Inr \<lparr>netloc = takeWhile (\<lambda>c. c \<noteq> CHR ''/'') (drop 5 url),
                path = dropWhile (\<lambda>c. c \<noteq> CHR ''/'') (drop 5 url)\<rparr>
      else Inr \<lparr>netloc = [], path = url\<rparr>)"

definition empty_state :: state where
  "empty_state = \<lparr>s3 = (\<lambda>_. None), trace = [], inferences = [], output_var = None\<rparr>"

definition late_env :: env where
  "late_env =
     \<lparr>urlparse = sample_urlparse,
      outside = (\<lambda>t s. if t = 3 then s((''bkt'', ''out/a.out'') := Some ''summary'') else s),
      s3_failure = (\<lambda>t. None),
      service = (\<lambda>t ep inp ct. Inl (OtherError ''unused'')),
      repr = OutputLocation\<rparr>"

definition never_env :: env where
  "never_env =
     \<lparr>urlparse = sample_urlparse,
      outside = (\<lambda>t s. s),
      s3_failure = (\<lambda>t. None),
      service = (\<lambda>t ep inp ct. Inl (OtherError ''unused'')),
      repr = OutputLocation\<rparr>"

definition token :: "nat \<Rightarrow> string" where
  "token t = replicate (Suc t) (CHR ''x'')"

definition prompt_env :: env where
  "prompt_env =
     \<lparr>urlparse = sample_urlparse,
      outside = (\<lambda>t s (b, k). Some (''summary of '' @ k)),
      s3_failure = (\<lambda>t. None),
      service = (\<lambda>t ep inp ct.
         Inr \<lparr>OutputLocation = S3OutputPath ''bkt'' @ ''/'' @ token t @ ''.out''\<rparr>),
      repr = OutputLocation\<rparr>"

definition refusing_env :: env where
  "refusing_env =
     prompt_env\<lparr>service := (\<lambda>t ep inp ct.
        if t = 2 then Inl (ClientError ''ThrottlingException'')
        else service prompt_env t ep inp ct)\<rparr>"

definition denying_env :: env where
  "denying_env =
     prompt_env\<lparr>s3_failure := (\<lambda>t. if t = 5 then Some (ClientError ''AccessDenied'') else None)\<rparr>"

definition sample_output :: "nat \<Rightarrow> string" where
  "sample_output t = S3OutputPath ''bkt'' @ ''/'' @ token t @ ''.out''"

section \<open>Facts about the outside calls and the polling loop\<close>

lemma trace_effect: "trace (effect env ev st) = trace st @ [ev]"
  by (simp add: effect_def)

lemma s3_effect: "s3 (effect env ev st) = outside env (length (trace st)) (s3 st)"
  by (simp add: effect_def)

lemma inferences_effect: "inferences (effect env ev st) = inferences st"
  by (simp add: effect_def)

lemma output_var_effect: "output_var (effect env ev st) = output_var st"
  by (simp add: effect_def)

lemma snd_read_s3_file: "snd (read_s3_file env b k st) = effect env (ReadS3 b k) st"
  by (simp add: read_s3_file_def Let_def)

lemma retry_effects:
  "retry env b k st =
     effect env (Sleep 2) (effect env (Print ''waiting for output...'') (effect env (ReadS3 b k) st))"
  by (simp add: retry_def sleep_def print_def snd_read_s3_file)

lemma loop_not_found:
  assumes "fst (read_s3_file env b k st) = not_found"
  shows "get_output_loop env b k st = get_output_loop env b k (retry env b k st)"
proof -
  obtain r st1 where rd: "read_s3_file env b k st = (r, st1)"
    by (cases "read_s3_file env b k st")
  with assms have "r = Inl (ClientError ''NoSuchKey'')"
    by (simp add: not_found_def)
  with rd show ?thesis
    by (subst get_output_loop.simps) (simp add: retry_def)
qed

lemma loop_return:
  assumes "fst (read_s3_file env b k st) \<noteq> not_found"
  shows "get_output_loop env b k st = Some (read_s3_file env b k st)"
  using assms
  by (subst get_output_loop.simps)
     (auto simp add: not_found_def split: prod.splits sum.splits error.splits)


lemma attempt_0: "attempt env b k 0 st = read_s3_file env b k st"
  by (simp add: attempt_def)

lemma attempt_Suc: "attempt env b k (Suc n) st = attempt env b k n (retry env b k st)"
  by (simp add: attempt_def funpow_swap1)

lemma loop_retries:
  "(\<forall>i<n. fst (attempt env b k i st) = not_found) \<Longrightarrow>
   get_output_loop env b k st = get_output_loop env b k ((retry env b k ^^ n) st)"
proof (induction n arbitrary: st)
  case 0
  show ?case by simp
next
  case (Suc n)
  from Suc.prems have first: "fst (read_s3_file env b k st) = not_found"
    using attempt_0 [of env b k st] by auto
  from Suc.prems have "\<forall>i<n. fst (attempt env b k i (retry env b k st)) = not_found"
    by (auto simp: attempt_Suc [symmetric])
  then have "get_output_loop env b k (retry env b k st) =
      get_output_loop env b k ((retry env b k ^^ n) (retry env b k st))"
    by (rule Suc.IH)
  with first show ?case
    by (simp add: loop_not_found funpow_swap1)
qed

lemma loop_returns_some_attempt:
  "get_output_loop env b k st = Some y \<Longrightarrow> \<exists>n. fst (attempt env b k n st) \<noteq> not_found"
proof (induction rule: get_output_loop.raw_induct [rotated 1, consumes 1])
  case (1 loop env b k st y)
  show ?case
  proof (cases "fst (read_s3_file env b k st) = not_found")
    case False
    then have "fst (attempt env b k 0 st) \<noteq> not_found" by (simp add: attempt_0)
    then show ?thesis by blast
  next
    case True
    obtain r st1 where rd: "read_s3_file env b k st = (r, st1)"
      by (cases "read_s3_file env b k st")
    with True have "r = Inl (ClientError ''NoSuchKey'')"
      by (simp add: not_found_def)
    with rd "1.hyps" have "loop env b k (retry env b k st) = Some y"
      by (simp add: retry_def)
    then obtain n where "fst (attempt env b k n (retry env b k st)) \<noteq> not_found"
      using "1.IH" by blast
    then have "fst (attempt env b k (Suc n) st) \<noteq> not_found"
      by (simp add: attempt_Suc)
    then show ?thesis by blast
  qed
qed

lemma loop_diverges:
  "(\<forall>n. fst (attempt env b k n st) = not_found) \<Longrightarrow> get_output_loop env b k st = None"
  using loop_returns_some_attempt [of env b k st] by (cases "get_output_loop env b k st") auto

lemma loop_first_answer:
  assumes "\<forall>i<n. fst (attempt env b k i st) = not_found"
    and "fst (attempt env b k n st) \<noteq> not_found"
  shows "get_output_loop env b k st = Some (attempt env b k n st)"
proof -
  have "get_output_loop env b k st = get_output_loop env b k ((retry env b k ^^ n) st)"
    using assms(1) by (rule loop_retries)
  also have "\<dots> = Some (read_s3_file env b k ((retry env b k ^^ n) st))"
    using assms(2) by (intro loop_return) (simp add: attempt_def)
  finally show ?thesis by (simp add: attempt_def)
qed

lemma loop_returns_first_answer:
  assumes "get_output_loop env b k st = Some y"
  shows "\<exists>n. (\<forall>i<n. fst (attempt env b k i st) = not_found) \<and>
              fst (attempt env b k n st) \<noteq> not_found \<and> y = attempt env b k n st"
proof -
  define Q where "Q n \<longleftrightarrow> fst (attempt env b k n st) \<noteq> not_found" for n
  from loop_returns_some_attempt [OF assms] have "\<exists>n. Q n" by (simp add: Q_def)
  then obtain n where n: "Q n" "\<forall>i<n. \<not> Q i"
    using exists_least_iff [of Q] by auto
  then have "get_output_loop env b k st = Some (attempt env b k n st)"
    by (intro loop_first_answer) (auto simp: Q_def)
  with assms n show ?thesis by (auto simp: Q_def)
qed

lemma trace_retries:
  "trace ((retry env b k ^^ n) st) =
   trace st @ concat (replicate n [ReadS3 b k, Print ''waiting for output...'', Sleep 2])"
proof (induction n arbitrary: st)
  case 0
  show ?case by simp
next
  case (Suc n)
  have a: "(retry env b k ^^ Suc n) st = (retry env b k ^^ n) (retry env b k st)"
    by (simp add: funpow_swap1)
  have b: "trace ((retry env b k ^^ n) (retry env b k st)) = trace (retry env b k st) @
      concat (replicate n [ReadS3 b k, Print ''waiting for output...'', Sleep 2])"
    by (rule Suc.IH)
  have c: "trace (retry env b k st) =
      trace st @ [ReadS3 b k, Print ''waiting for output...'', Sleep 2]"
    by (simp add: retry_effects trace_effect)
  show ?case
    unfolding a b c by simp
qed

lemma trace_attempt:
  "trace (snd (attempt env b k n st)) = trace st @ poll_events b k n"
  by (simp add: attempt_def snd_read_s3_file trace_effect trace_retries poll_events_def)


lemma get_output_parsed:
  "urlparse env output_location = Inr u \<Longrightarrow>
   get_output env output_location st = get_output_loop env (netloc u) (drop 1 (path u)) st"
  by (simp add: get_output_def)

lemma evolve_add: "evolve env t (m + n) s = evolve env (t + m) n (evolve env t m s)"
  by (induction m arbitrary: t s) simp_all

lemma evolve_idle: "(\<forall>i<n. outside env (t + i) = (\<lambda>s. s)) \<Longrightarrow> evolve env t n s = s"
proof (induction n arbitrary: t s)
  case 0
  show ?case by simp
next
  case (Suc n)
  from Suc.prems have "outside env t = (\<lambda>s. s)"
    by (metis add.right_neutral zero_less_Suc)
  moreover from Suc.prems have "\<forall>i<n. outside env (Suc t + i) = (\<lambda>s. s)"
    by (metis Suc_less_eq add_Suc_shift)
  then have "evolve env (Suc t) n s = s" by (rule Suc.IH)
  ultimately show ?case by simp
qed

lemma s3_retry:
  "s3 (retry env b k st) = evolve env (length (trace st)) 3 (s3 st)"
  by (simp add: retry_effects s3_effect trace_effect numeral_3_eq_3)

lemma length_trace_retry: "length (trace (retry env b k st)) = length (trace st) + 3"
  by (simp add: retry_effects trace_effect)

lemma s3_retries:
  "s3 ((retry env b k ^^ n) st) = evolve env (length (trace st)) (3 * n) (s3 st)"
proof (induction n arbitrary: st)
  case 0
  show ?case by simp
next
  case (Suc n)
  have a: "(retry env b k ^^ Suc n) st = (retry env b k ^^ n) (retry env b k st)"
    by (simp add: funpow_swap1)
  have "s3 ((retry env b k ^^ n) (retry env b k st)) =
      evolve env (length (trace st) + 3) (3 * n) (evolve env (length (trace st)) 3 (s3 st))"
    by (simp add: Suc.IH s3_retry length_trace_retry)
  also have "\<dots> = evolve env (length (trace st)) (3 + 3 * n) (s3 st)"
    by (simp only: evolve_add)
  finally show ?case
    unfolding a by simp
qed

lemma inferences_retries: "inferences ((retry env b k ^^ n) st) = inferences st"
  by (induction n) (simp_all add: retry_effects inferences_effect)

lemma output_var_retries: "output_var ((retry env b k ^^ n) st) = output_var st"
  by (induction n) (simp_all add: retry_effects output_var_effect)

lemma read_content:
  "fst (read_s3_file env b k st) = Inr body \<Longrightarrow> s3 (snd (read_s3_file env b k st)) (b, k) = Some body"
  by (auto simp: read_s3_file_def Let_def split: option.splits)

lemma attempt_content:
  "fst (attempt env b k n st) = Inr body \<Longrightarrow> s3 (snd (attempt env b k n st)) (b, k) = Some body"
  unfolding attempt_def by (rule read_content)

lemma length_retry_events:
  "length (concat (replicate n [ReadS3 b k, Print ''waiting for output...'', Sleep 2])) = 3 * n"
  by (induction n) simp_all

lemma s3_attempt:
  "s3 (snd (attempt env b k n st)) = evolve env (length (trace st)) (3 * n + 1) (s3 st)"
proof -
  have "s3 (snd (attempt env b k n st)) =
      evolve env (length (trace st) + 3 * n) 1 (evolve env (length (trace st)) (3 * n) (s3 st))"
    by (simp add: attempt_def snd_read_s3_file s3_effect s3_retries trace_retries
        length_retry_events)
  then show ?thesis
    by (simp only: evolve_add)
qed

lemma length_poll_events: "length (poll_events b k n) = 3 * n + 1"
  by (simp add: poll_events_def length_retry_events)

lemma inferences_attempt: "inferences (snd (attempt env b k n st)) = inferences st"
  by (simp add: attempt_def snd_read_s3_file inferences_effect inferences_retries)

lemma output_var_attempt: "output_var (snd (attempt env b k n st)) = output_var st"
  by (simp add: attempt_def snd_read_s3_file output_var_effect output_var_retries)

lemma loop_none_iff:
  "get_output_loop env b k st = None \<longleftrightarrow> (\<forall>n. fst (attempt env b k n st) = not_found)"
proof
  assume none: "get_output_loop env b k st = None"
  show "\<forall>n. fst (attempt env b k n st) = not_found"
  proof (rule ccontr)
    assume "\<not> (\<forall>n. fst (attempt env b k n st) = not_found)"
    then have "\<exists>n. fst (attempt env b k n st) \<noteq> not_found" by simp
    then obtain n where "fst (attempt env b k n st) \<noteq> not_found"
        "\<forall>i<n. \<not> fst (attempt env b k i st) \<noteq> not_found"
      using exists_least_iff [of "\<lambda>n. fst (attempt env b k n st) \<noteq> not_found"] by auto
    then have "get_output_loop env b k st = Some (attempt env b k n st)"
      by (intro loop_first_answer) auto
    with none show False by simp
  qed
next
  assume "\<forall>n. fst (attempt env b k n st) = not_found"
  then show "get_output_loop env b k st = None" by (rule loop_diverges)
qed

subsection \<open>The sample runs\<close>

lemma sample_urlparse_a:
  "sample_urlparse ''s3://bkt/out/a.out'' = Inr \<lparr>netloc = ''bkt'', path = ''/out/a.out''\<rparr>"
  by (simp add: sample_urlparse_def)

lemma late_attempt_0: "fst (attempt late_env ''bkt'' ''out/a.out'' 0 empty_state) = not_found"
  by (simp add: attempt_def read_s3_file_def effect_def late_env_def empty_state_def not_found_def)

lemma late_attempt_1:
  "fst (attempt late_env ''bkt'' ''out/a.out'' (Suc 0) empty_state) = Inr ''summary''"
  by (simp add: attempt_def retry_def sleep_def print_def read_s3_file_def effect_def
      late_env_def empty_state_def)

lemma never_attempt:
  "fst (attempt never_env b k n empty_state) = not_found"
proof -
  have "evolve never_env t m s = s" for t m s
    by (rule evolve_idle) (simp add: never_env_def)
  then have "s3 ((retry never_env b k ^^ n) empty_state) = s3 empty_state"
    by (simp add: s3_retries)
  then show ?thesis
    by (simp add: attempt_def read_s3_file_def effect_def never_env_def empty_state_def
        not_found_def)
qed


lemma late_returns:
  "get_output late_env ''s3://bkt/out/a.out'' empty_state =
     Some (Inr ''summary'', snd (attempt late_env ''bkt'' ''out/a.out'' (Suc 0) empty_state))"
proof -
  have "get_output_loop late_env ''bkt'' ''out/a.out'' empty_state =
      Some (attempt late_env ''bkt'' ''out/a.out'' (Suc 0) empty_state)"
    using late_attempt_0 late_attempt_1 by (intro loop_first_answer) (simp_all add: not_found_def)
  moreover have "attempt late_env ''bkt'' ''out/a.out'' (Suc 0) empty_state =
      (Inr ''summary'', snd (attempt late_env ''bkt'' ''out/a.out'' (Suc 0) empty_state))"
    using late_attempt_1 by (metis prod.collapse)
  ultimately show ?thesis
    by (simp add: get_output_def late_env_def sample_urlparse_a)
qed

lemma prompt_returns:
  "get_output prompt_env ''s3://bkt/async-inference-demo/output/x.out'' empty_state =
     Some (Inr ''summary of async-inference-demo/output/x.out'',
           snd (attempt prompt_env ''bkt'' ''async-inference-demo/output/x.out'' 0 empty_state))"
proof -
  have r: "fst (attempt prompt_env ''bkt'' ''async-inference-demo/output/x.out'' 0 empty_state) =
      Inr ''summary of async-inference-demo/output/x.out''"
    by (simp add: attempt_def read_s3_file_def effect_def prompt_env_def empty_state_def)
  then have "get_output_loop prompt_env ''bkt'' ''async-inference-demo/output/x.out'' empty_state =
      Some (attempt prompt_env ''bkt'' ''async-inference-demo/output/x.out'' 0 empty_state)"
    by (intro loop_first_answer) (simp_all add: not_found_def)
  moreover have "attempt prompt_env ''bkt'' ''async-inference-demo/output/x.out'' 0 empty_state =
      (Inr ''summary of async-inference-demo/output/x.out'',
       snd (attempt prompt_env ''bkt'' ''async-inference-demo/output/x.out'' 0 empty_state))"
    using r by (metis prod.collapse)
  ultimately show ?thesis
    by (simp add: get_output_def prompt_env_def sample_urlparse_def)
qed

section \<open>The result poller\<close>

text \<open>
  C1. For a locator that \<^verbatim>\<open>urlparse\<close> accepts, \<^verbatim>\<open>get_output\<close> retries exactly when the read
  fails with \<^verbatim>\<open>ClientError\<close> code \<^verbatim>\<open>NoSuchKey\<close>. If it returns \<open>(r, st')\<close>, then for some
  \<open>n\<close> the first \<open>n\<close> reads failed with \<^verbatim>\<open>NoSuchKey\<close>, the next read answered \<open>r\<close>, which
  is not the \<^verbatim>\<open>NoSuchKey\<close> failure, \<open>st'\<close> is the state right after that read, and the
  events of the call are \<open>n\<close> times a read, the waiting message and a sleep of 2, then the
  last read: one sleep of 2 before each retry, none after the answer. Conversely the
  first answer that is not the \<^verbatim>\<open>NoSuchKey\<close> failure, content or any other exception, is
  returned with the state right after its read: no retry, no sleep.
\<close>

theorem get_output_retry_iff_NoSuchKey:
  assumes "urlparse env output_location = Inr u"
    and "bucket = netloc u" and "key = drop 1 (path u)"
  shows "(get_output env output_location st = Some (r, st') \<longrightarrow>
           (\<exists>n. (\<forall>i<n. fst (attempt env bucket key i st) = not_found) \<and>
                attempt env bucket key n st = (r, st') \<and> r \<noteq> not_found \<and>
                trace st' = trace st @ poll_events bucket key n))
       \<and> (\<forall>n. (\<forall>i<n. fst (attempt env bucket key i st) = not_found) \<and>
                fst (attempt env bucket key n st) \<noteq> not_found \<longrightarrow>
                get_output env output_location st = Some (attempt env bucket key n st))"
proof (intro conjI impI allI)
  assume "get_output env output_location st = Some (r, st')"
  with assms have "get_output_loop env bucket key st = Some (r, st')"
    by (simp add: get_output_parsed)
  from loop_returns_first_answer [OF this]
  obtain n where n: "\<forall>i<n. fst (attempt env bucket key i st) = not_found"
      "fst (attempt env bucket key n st) \<noteq> not_found" "(r, st') = attempt env bucket key n st"
    by blast
  from n(3) have "st' = snd (attempt env bucket key n st)" "r = fst (attempt env bucket key n st)"
    by (metis snd_conv, metis fst_conv)
  with n show "\<exists>n. (\<forall>i<n. fst (attempt env bucket key i st) = not_found) \<and>
                attempt env bucket key n st = (r, st') \<and> r \<noteq> not_found \<and>
                trace st' = trace st @ poll_events bucket key n"
    by (intro exI [of _ n]) (simp add: trace_attempt)
next
  fix n
  assume "(\<forall>i<n. fst (attempt env bucket key i st) = not_found) \<and>
          fst (attempt env bucket key n st) \<noteq> not_found"
  then have "get_output_loop env bucket key st = Some (attempt env bucket key n st)"
    by (intro loop_first_answer) auto
  with assms show "get_output env output_location st = Some (attempt env bucket key n st)"
    by (simp add: get_output_parsed)
qed

theorem get_output_retry_iff_NoSuchKey_witness:
  "map_option fst (get_output late_env ''s3://bkt/out/a.out'' empty_state) = Some (Inr ''summary'')
   \<and> map_option (trace \<circ> snd) (get_output late_env ''s3://bkt/out/a.out'' empty_state) =
       Some [ReadS3 ''bkt'' ''out/a.out'', Print ''waiting for output...'', Sleep 2,
             ReadS3 ''bkt'' ''out/a.out'']"
proof -
  have p: "urlparse late_env ''s3://bkt/out/a.out'' = Inr \<lparr>netloc = ''bkt'', path = ''/out/a.out''\<rparr>"
    by (simp add: late_env_def sample_urlparse_a)
  note thm1 = get_output_retry_iff_NoSuchKey [OF p, of "''bkt''" "''out/a.out''" empty_state]
  have "get_output late_env ''s3://bkt/out/a.out'' empty_state =
      Some (attempt late_env ''bkt'' ''out/a.out'' (Suc 0) empty_state)"
    using thm1 late_attempt_0 late_attempt_1 by (simp add: not_found_def)
  then show ?thesis
    using late_attempt_1 by (simp add: trace_attempt poll_events_def empty_state_def)
qed

text \<open>
  C2. For a locator that \<^verbatim>\<open>urlparse\<close> accepts: if the first \<open>n\<close> reads fail with
  \<^verbatim>\<open>NoSuchKey\<close> and the next read finds the object, \<^verbatim>\<open>get_output\<close> returns its content,
  which is the content the store holds under the bucket and key at that read, and the call
  ends with that read (\<open>n\<close> retries, no more). \<^verbatim>\<open>get_output\<close> does not return exactly
  when every read fails with \<^verbatim>\<open>NoSuchKey\<close>, however many there are: no bound on the
  retries, no timeout.
\<close>

theorem get_output_returns_when_present_else_never:
  assumes "urlparse env output_location = Inr u"
    and "bucket = netloc u" and "key = drop 1 (path u)"
  shows "(\<forall>n body. (\<forall>i<n. fst (attempt env bucket key i st) = not_found) \<and>
                   fst (attempt env bucket key n st) = Inr body \<longrightarrow>
            get_output env output_location st = Some (Inr body, snd (attempt env bucket key n st)) \<and>
            s3 (snd (attempt env bucket key n st)) (bucket, key) = Some body \<and>
            trace (snd (attempt env bucket key n st)) = trace st @ poll_events bucket key n)
       \<and> ((\<forall>n. fst (attempt env bucket key n st) = not_found) \<longleftrightarrow>
            get_output env output_location st = None)"
proof (intro conjI allI impI)
  fix n body
  assume h: "(\<forall>i<n. fst (attempt env bucket key i st) = not_found) \<and>
             fst (attempt env bucket key n st) = Inr body"
  then have "get_output_loop env bucket key st = Some (attempt env bucket key n st)"
    by (intro loop_first_answer) (auto simp: not_found_def)
  moreover have "attempt env bucket key n st = (Inr body, snd (attempt env bucket key n st))"
    using h by (metis prod.collapse)
  ultimately show "get_output env output_location st =
      Some (Inr body, snd (attempt env bucket key n st))"
    using assms by (simp add: get_output_parsed)
  show "s3 (snd (attempt env bucket key n st)) (bucket, key) = Some body"
    using h by (intro attempt_content) simp
  show "trace (snd (attempt env bucket key n st)) = trace st @ poll_events bucket key n"
    by (rule trace_attempt)
next
  show "(\<forall>n. fst (attempt env bucket key n st) = not_found) \<longleftrightarrow>
        get_output env output_location st = None"
    using assms by (simp add: get_output_parsed loop_none_iff)
qed

theorem get_output_returns_when_present_else_never_witness:
  "map_option fst (get_output late_env ''s3://bkt/out/a.out'' empty_state) = Some (Inr ''summary'')
   \<and> get_output never_env ''s3://bkt/out/a.out'' empty_state = None"
proof -
  have p: "urlparse late_env ''s3://bkt/out/a.out'' = Inr \<lparr>netloc = ''bkt'', path = ''/out/a.out''\<rparr>"
    by (simp add: late_env_def sample_urlparse_a)
  have q: "urlparse never_env ''s3://bkt/out/a.out'' = Inr \<lparr>netloc = ''bkt'', path = ''/out/a.out''\<rparr>"
    by (simp add: never_env_def sample_urlparse_a)
  have "get_output late_env ''s3://bkt/out/a.out'' empty_state =
      Some (Inr ''summary'', snd (attempt late_env ''bkt'' ''out/a.out'' (Suc 0) empty_state))"
    using get_output_returns_when_present_else_never
      [OF p, of "''bkt''" "''out/a.out''" empty_state]
      late_attempt_0 late_attempt_1
    by simp
  moreover have "get_output never_env ''s3://bkt/out/a.out'' empty_state = None"
    using get_output_returns_when_present_else_never
      [OF q, of "''bkt''" "''out/a.out''" empty_state]
    by (simp add: never_attempt)
  ultimately show ?thesis by simp
qed

text \<open>
  C7. Polling reads and never writes. After any number \<open>n\<close> of failed polls the store is
  what the other writers alone made of it during those \<open>3 * n\<close> calls, so it is the store
  the polls started from when nobody else writes; the notebook's variables are untouched
  (nothing is cached). When \<^verbatim>\<open>get_output\<close> returns, the same holds of the whole call, and
  the content returned is the content the store holds under the bucket and key at that
  moment, whatever the number of polls before.
\<close>

theorem get_output_read_only:
  "(s3 ((retry env bucket key ^^ n) st) = evolve env (length (trace st)) (3 * n) (s3 st)
    \<and> inferences ((retry env bucket key ^^ n) st) = inferences st
    \<and> output_var ((retry env bucket key ^^ n) st) = output_var st)
   \<and> ((\<forall>t. outside env t = (\<lambda>s. s)) \<longrightarrow> s3 ((retry env bucket key ^^ n) st) = s3 st)
   \<and> (get_output env output_location st = Some (r, st') \<longrightarrow>
        s3 st' = evolve env (length (trace st)) (length (trace st') - length (trace st)) (s3 st)
        \<and> inferences st' = inferences st \<and> output_var st' = output_var st)
   \<and> (urlparse env output_location = Inr u \<and>
       get_output env output_location st = Some (Inr body, st') \<longrightarrow>
        s3 st' (netloc u, drop 1 (path u)) = Some body)"
proof (intro conjI impI)
  show "s3 ((retry env bucket key ^^ n) st) = evolve env (length (trace st)) (3 * n) (s3 st)"
    by (rule s3_retries)
  show "inferences ((retry env bucket key ^^ n) st) = inferences st"
    by (rule inferences_retries)
  show "output_var ((retry env bucket key ^^ n) st) = output_var st"
    by (rule output_var_retries)
next
  assume "\<forall>t. outside env t = (\<lambda>s. s)"
  then have "evolve env (length (trace st)) (3 * n) (s3 st) = s3 st"
    by (intro evolve_idle) simp
  then show "s3 ((retry env bucket key ^^ n) st) = s3 st"
    by (simp add: s3_retries)
next
  assume ret: "get_output env output_location st = Some (r, st')"
  have "s3 st' = evolve env (length (trace st)) (length (trace st') - length (trace st)) (s3 st)
      \<and> inferences st' = inferences st \<and> output_var st' = output_var st"
  proof (cases "urlparse env output_location")
    case (Inl e)
    with ret have "st' = st" by (simp add: get_output_def)
    then show ?thesis by simp
  next
    case (Inr v)
    with ret have "get_output_loop env (netloc v) (drop 1 (path v)) st = Some (r, st')"
      by (simp add: get_output_parsed)
    from loop_returns_first_answer [OF this]
    obtain m where "(r, st') = attempt env (netloc v) (drop 1 (path v)) m st"
      by blast
    then have "st' = snd (attempt env (netloc v) (drop 1 (path v)) m st)"
      by (metis snd_conv)
    then show ?thesis
      by (simp add: s3_attempt trace_attempt length_poll_events inferences_attempt
          output_var_attempt)
  qed
  then show "s3 st' =
      evolve env (length (trace st)) (length (trace st') - length (trace st)) (s3 st)"
    and "inferences st' = inferences st" and "output_var st' = output_var st"
    by simp_all
next
  assume h: "urlparse env output_location = Inr u \<and>
             get_output env output_location st = Some (Inr body, st')"
  then have "get_output_loop env (netloc u) (drop 1 (path u)) st = Some (Inr body, st')"
    using get_output_parsed [of env output_location u st] by simp
  from loop_returns_first_answer [OF this]
  obtain m where "(Inr body, st') = attempt env (netloc u) (drop 1 (path u)) m st"
    by blast
  then have "fst (attempt env (netloc u) (drop 1 (path u)) m st) = Inr body"
      "st' = snd (attempt env (netloc u) (drop 1 (path u)) m st)"
    by (metis fst_conv, metis snd_conv)
  then show "s3 st' (netloc u, drop 1 (path u)) = Some body"
    by (simp add: attempt_content)
qed

theorem get_output_read_only_witness:
  "s3 ((retry never_env ''bkt'' ''out/a.out'' ^^ 5) empty_state) = s3 empty_state
   \<and> map_option (\<lambda>p. s3 (snd p) (''bkt'', ''out/a.out''))
        (get_output late_env ''s3://bkt/out/a.out'' empty_state) = Some (Some ''summary'')"
proof -
  have idle: "\<forall>t. outside never_env t = (\<lambda>s. s)"
    by (simp add: never_env_def)
  have p: "urlparse late_env ''s3://bkt/out/a.out'' = Inr \<lparr>netloc = ''bkt'', path = ''/out/a.out''\<rparr>"
    by (simp add: late_env_def sample_urlparse_a)
  have "s3 ((retry never_env ''bkt'' ''out/a.out'' ^^ 5) empty_state) = s3 empty_state"
    using get_output_read_only [where env = never_env and bucket = "''bkt''"
        and key = "''out/a.out''" and n = 5 and st = empty_state] idle
    by blast
  moreover have "s3 (snd (attempt late_env ''bkt'' ''out/a.out'' (Suc 0) empty_state))
      (''bkt'', ''out/a.out'') = Some ''summary''"
  proof -
    have "urlparse late_env ''s3://bkt/out/a.out'' = Inr \<lparr>netloc = ''bkt'', path = ''/out/a.out''\<rparr> \<and>
        get_output late_env ''s3://bkt/out/a.out'' empty_state =
          Some (Inr ''summary'', snd (attempt late_env ''bkt'' ''out/a.out'' (Suc 0) empty_state))
        \<longrightarrow> s3 (snd (attempt late_env ''bkt'' ''out/a.out'' (Suc 0) empty_state))
              (netloc \<lparr>netloc = ''bkt'', path = ''/out/a.out''\<rparr>,
               drop 1 (path \<lparr>netloc = ''bkt'', path = ''/out/a.out''\<rparr>)) = Some ''summary''"
      using get_output_read_only [where env = late_env and st = empty_state
          and bucket = "''bkt''" and key = "''out/a.out''" and n = 0 and r = "Inr ''summary''"
          and output_location = "''s3://bkt/out/a.out''"
          and st' = "snd (attempt late_env ''bkt'' ''out/a.out'' (Suc 0) empty_state)"
          and u = "\<lparr>netloc = ''bkt'', path = ''/out/a.out''\<rparr>" and body = "''summary''"]
      by blast
    with p late_returns show ?thesis by simp
  qed
  ultimately show ?thesis
    by (simp add: late_returns)
qed

text \<open>
  C9. When \<^verbatim>\<open>urlparse\<close> gives network location \<open>B\<close> and path \<open>/P\<close>, \<^verbatim>\<open>get_output\<close> is the
  polling loop on bucket \<open>B\<close> and key \<open>P\<close> (the path without its first character): if it
  returns, every read of the call was of bucket \<open>B\<close>, key \<open>P\<close>, and a returned content is
  what the store holds there.
\<close>

theorem get_output_reads_netloc_and_path_tail:
  assumes "urlparse env output_location = Inr u"
    and "netloc u = B" and "path u = CHR ''/'' # P"
  shows "get_output env output_location st = get_output_loop env B P st
     \<and> (get_output env output_location st = Some (r, st') \<longrightarrow>
          (\<exists>n. (r, st') = attempt env B P n st \<and> trace st' = trace st @ poll_events B P n))
     \<and> (get_output env output_location st = Some (Inr body, st') \<longrightarrow> s3 st' (B, P) = Some body)"
proof -
  have eq: "get_output env output_location st = get_output_loop env B P st"
    using assms by (simp add: get_output_parsed)
  have a: "\<exists>n. (r, st') = attempt env B P n st \<and> trace st' = trace st @ poll_events B P n"
    if "get_output_loop env B P st = Some (r, st')" for r st'
  proof -
    from loop_returns_first_answer [OF that]
    obtain n where n: "(r, st') = attempt env B P n st" by blast
    then have "st' = snd (attempt env B P n st)" by (metis snd_conv)
    with n show ?thesis by (auto simp: trace_attempt)
  qed
  have b: "s3 st' (B, P) = Some body" if "get_output_loop env B P st = Some (Inr body, st')"
  proof -
    from a [OF that] obtain n where "(Inr body, st') = attempt env B P n st" by blast
    then have "fst (attempt env B P n st) = Inr body" "st' = snd (attempt env B P n st)"
      by (metis fst_conv, metis snd_conv)
    then show ?thesis by (simp add: attempt_content)
  qed
  from eq a b show ?thesis by simp
qed


theorem get_output_reads_netloc_and_path_tail_witness:
  "map_option (\<lambda>p. (fst p, s3 (snd p) (''bkt'', ''async-inference-demo/output/x.out'')))
     (get_output prompt_env ''s3://bkt/async-inference-demo/output/x.out'' empty_state) =
     Some (Inr ''summary of async-inference-demo/output/x.out'',
           Some ''summary of async-inference-demo/output/x.out'')"
proof -
  have p: "urlparse prompt_env ''s3://bkt/async-inference-demo/output/x.out'' =
      Inr \<lparr>netloc = ''bkt'', path = ''/async-inference-demo/output/x.out''\<rparr>"
    by (simp add: prompt_env_def sample_urlparse_def)
  have "s3 (snd (attempt prompt_env ''bkt'' ''async-inference-demo/output/x.out'' 0 empty_state))
      (''bkt'', ''async-inference-demo/output/x.out'') =
      Some ''summary of async-inference-demo/output/x.out''"
    using get_output_reads_netloc_and_path_tail [OF p,
        where B = "''bkt''" and P = "''async-inference-demo/output/x.out''"
        and st = empty_state and body = "''summary of async-inference-demo/output/x.out''"
        and st' = "snd (attempt prompt_env ''bkt'' ''async-inference-demo/output/x.out'' 0 empty_state)"]
      prompt_returns
    by simp
  then show ?thesis
    by (simp add: prompt_returns)
qed

section \<open>The request submitter\<close>

lemma output_path_not_prefix_of_input:
  "\<not> prefix (S3OutputPath s3_bucket) (input_s3_location s3_bucket)"
  by (auto simp: prefix_def S3OutputPath_def input_s3_location_def bucket_prefix_def)

text \<open>
  C8. Let the service honour the endpoint configuration, that is, place every output
  under the configured \<^verbatim>\<open>S3OutputPath\<close>. The configured output path is not a prefix of the
  notebook's \<^verbatim>\<open>input_s3_location\<close>. For every endpoint name and every input locator, a
  submission that the service accepts makes the invocation cell return the
  \<^verbatim>\<open>OutputLocation\<close> of the response, and that locator differs from the input locator
  whenever the input is not itself under the output path, as is the case of
  \<^verbatim>\<open>input_s3_location\<close>.
\<close>

theorem invoke_cell_output_differs_from_input:
  assumes "\<forall>t ep inp ct r. service env t ep inp ct = Inr r \<longrightarrow>
             prefix (S3OutputPath s3_bucket) (OutputLocation r)"
    and "service env (length (trace st)) endpoint_name input_location ''application/json'' = Inr r"
  shows "\<not> prefix (S3OutputPath s3_bucket) (input_s3_location s3_bucket)
     \<and> fst (invoke_cell env endpoint_name input_location st) = Inr (OutputLocation r)
     \<and> (\<not> prefix (S3OutputPath s3_bucket) input_location \<longrightarrow> OutputLocation r \<noteq> input_location)
     \<and> (input_location = input_s3_location s3_bucket \<longrightarrow> OutputLocation r \<noteq> input_location)"
proof -
  from assms have under: "prefix (S3OutputPath s3_bucket) (OutputLocation r)"
    by blast
  have ret: "fst (invoke_cell env endpoint_name input_location st) = Inr (OutputLocation r)"
    using assms(2) by (simp add: invoke_cell_def invoke_endpoint_async_def Let_def)
  from under have "OutputLocation r \<noteq> input_location"
    if "\<not> prefix (S3OutputPath s3_bucket) input_location"
    using that by auto
  with ret output_path_not_prefix_of_input [of s3_bucket] show ?thesis
    by auto
qed

theorem invoke_cell_output_differs_from_input_witness:
  "fst (invoke_cell prompt_env ''summarizer'' (input_s3_location ''bkt'') empty_state) =
     Inr ''s3://bkt/async-inference-demo/output/x.out''
   \<and> ''s3://bkt/async-inference-demo/output/x.out'' \<noteq> input_s3_location ''bkt''"
proof -
  have h: "\<forall>t ep inp ct r. service prompt_env t ep inp ct = Inr r \<longrightarrow>
      prefix (S3OutputPath ''bkt'') (OutputLocation r)"
    by (auto simp: prompt_env_def)
  have a: "service prompt_env (length (trace empty_state)) ''summarizer'' (input_s3_location ''bkt'')
      ''application/json'' = Inr \<lparr>OutputLocation = ''s3://bkt/async-inference-demo/output/x.out''\<rparr>"
    by (simp add: prompt_env_def empty_state_def S3OutputPath_def bucket_prefix_def token_def)
  from invoke_cell_output_differs_from_input [OF h a] show ?thesis
    by simp
qed

section \<open>Facts about the bulk cells\<close>

lemma submit_loop_run:
  assumes "k \<le> length is" and "length locs = k"
    and "\<forall>j<k. \<exists>r. service env (length (trace st) + j) ep (input_s3_location b) ''application/json''
                 = Inr r \<and> OutputLocation r = locs ! j"
    and "k < length is \<longrightarrow>
           service env (length (trace st) + k) ep (input_s3_location b) ''application/json'' = Inl e"
  shows "submit_loop env ep b is st =
     (if k < length is then Inl e else Inr (),
      st\<lparr>s3 := evolve env (length (trace st)) (if k < length is then Suc k else k) (s3 st),
         trace := trace st @ replicate (if k < length is then Suc k else k)
                    (Invoke ep (input_s3_location b) ''application/json''),
         inferences := inferences st @ map (Pair (input_s3_location b)) locs\<rparr>)"
  using assms
proof (induction "is" arbitrary: st k locs)
  case Nil
  then show ?case by simp
next
  case (Cons i rest)
  show ?case
  proof (cases k)
    case 0
    with Cons.prems show ?thesis
      by (simp add: invoke_endpoint_async_def effect_def)
  next
    case (Suc k')
    with Cons.prems obtain l locs' where locs: "locs = l # locs'" "length locs' = k'"
      by (cases locs) auto
    from Cons.prems Suc obtain r where r:
      "service env (length (trace st)) ep (input_s3_location b) ''application/json'' = Inr r"
      "OutputLocation r = l"
      using locs by fastforce
    define st1 where "st1 = (effect env (Invoke ep (input_s3_location b) ''application/json'') st)
      \<lparr>inferences := inferences st @ [(input_s3_location b, l)]\<rparr>"
    have len: "length (trace st1) = Suc (length (trace st))"
      by (simp add: st1_def effect_def)
    have step: "submit_loop env ep b (i # rest) st = submit_loop env ep b rest st1"
      using r by (simp add: invoke_endpoint_async_def st1_def effect_def)
    have a: "k' \<le> length rest"
      using Cons.prems Suc by simp
    have c: "\<forall>j<k'. \<exists>r. service env (length (trace st1) + j) ep (input_s3_location b)
        ''application/json'' = Inr r \<and> OutputLocation r = locs' ! j"
    proof (intro allI impI)
      fix j assume "j < k'"
      then have "Suc j < k" using Suc by simp
      with Cons.prems(3) obtain r' where
        "service env (length (trace st) + Suc j) ep (input_s3_location b) ''application/json'' = Inr r'"
        "OutputLocation r' = locs ! Suc j"
        by blast
      then show "\<exists>r. service env (length (trace st1) + j) ep (input_s3_location b)
        ''application/json'' = Inr r \<and> OutputLocation r = locs' ! j"
        using locs len by auto
    qed
    have d: "k' < length rest \<longrightarrow>
        service env (length (trace st1) + k') ep (input_s3_location b) ''application/json'' = Inl e"
      using Cons.prems(4) Suc len by simp
    have "submit_loop env ep b rest st1 =
       (if k' < length rest then Inl e else Inr (),
        st1\<lparr>s3 := evolve env (length (trace st1)) (if k' < length rest then Suc k' else k') (s3 st1),
           trace := trace st1 @ replicate (if k' < length rest then Suc k' else k')
                      (Invoke ep (input_s3_location b) ''application/json''),
           inferences := inferences st1 @ map (Pair (input_s3_location b)) locs'\<rparr>)"
      using a locs(2) c d by (rule Cons.IH)
    then show ?thesis
      unfolding step using Suc locs
      by (simp add: st1_def effect_def replicate_app_Cons_same)
  qed
qed

lemma service_run_exists:
  "\<exists>k locs e. k \<le> n \<and> length locs = k \<and>
      (\<forall>j<k. \<exists>r. service env (t + j) ep inp ct = Inr r \<and> OutputLocation r = locs ! j) \<and>
      (k < n \<longrightarrow> service env (t + k) ep inp ct = Inl e)"
proof (induction n)
  case 0
  show ?case by simp
next
  case (Suc n)
  then obtain k locs e where h: "k \<le> n" "length locs = k"
      "\<forall>j<k. \<exists>r. service env (t + j) ep inp ct = Inr r \<and> OutputLocation r = locs ! j"
      "k < n \<longrightarrow> service env (t + k) ep inp ct = Inl e"
    by blast
  show ?case
  proof (cases "k < n")
    case True
    with h show ?thesis
      by (intro exI [of _ k] exI [of _ locs] exI [of _ e]) auto
  next
    case False
    with h have kn: "k = n" by simp
    show ?thesis
    proof (cases "service env (t + n) ep inp ct")
      case (Inl e')
      with h kn show ?thesis
        by (intro exI [of _ n] exI [of _ locs] exI [of _ e']) auto
    next
      case (Inr r)
      have "\<forall>j<Suc n. \<exists>r'. service env (t + j) ep inp ct = Inr r' \<and>
          OutputLocation r' = (locs @ [OutputLocation r]) ! j"
      proof (intro allI impI)
        fix j assume "j < Suc n"
        then consider "j < n" | "j = n" by linarith
        then show "\<exists>r'. service env (t + j) ep inp ct = Inr r' \<and>
          OutputLocation r' = (locs @ [OutputLocation r]) ! j"
        proof cases
          case 1
          with h kn show ?thesis by (auto simp: nth_append)
        next
          case 2
          with h kn Inr show ?thesis by (auto simp: nth_append)
        qed
      qed
      with h kn show ?thesis
        by (intro exI [of _ "Suc n"] exI [of _ "locs @ [OutputLocation r]"]) auto
    qed
  qed
qed


lemma get_output_frame:
  assumes "get_output env output_location st = Some (r, st')"
  shows "inferences st' = inferences st \<and> output_var st' = output_var st"
proof (cases "urlparse env output_location")
  case (Inl e)
  with assms show ?thesis by (simp add: get_output_def)
next
  case (Inr u)
  with assms have "get_output_loop env (netloc u) (drop 1 (path u)) st = Some (r, st')"
    by (simp add: get_output_parsed)
  from loop_returns_first_answer [OF this]
  obtain n where "(r, st') = attempt env (netloc u) (drop 1 (path u)) n st"
    by blast
  then have "st' = snd (attempt env (netloc u) (drop 1 (path u)) n st)"
    by (metis snd_conv)
  then show ?thesis
    by (simp add: inferences_attempt output_var_attempt)
qed

lemma get_output_content_events:
  assumes "get_output env output_location st = Some (Inr body, st')"
  shows "\<exists>n. trace st' =
     trace st @ poll_events (fst (locator env output_location)) (snd (locator env output_location)) n"
proof (cases "urlparse env output_location")
  case (Inl e)
  with assms show ?thesis by (simp add: get_output_def)
next
  case (Inr u)
  with assms have "get_output_loop env (netloc u) (drop 1 (path u)) st = Some (Inr body, st')"
    by (simp add: get_output_parsed)
  from loop_returns_first_answer [OF this]
  obtain n where "(Inr body, st') = attempt env (netloc u) (drop 1 (path u)) n st"
    by blast
  then have "st' = snd (attempt env (netloc u) (drop 1 (path u)) n st)"
    by (metis snd_conv)
  then have "trace st' = trace st @ poll_events (netloc u) (drop 1 (path u)) n"
    by (simp add: trace_attempt)
  with Inr show ?thesis
    by (auto simp: locator_def)
qed

lemma collect_loop_append:
  "collect_loop env (xs @ ys) st =
     (case collect_loop env xs st of
        None \<Rightarrow> None
      | Some (Inl e, st1) \<Rightarrow> Some (Inl e, st1)
      | Some (Inr u, st1) \<Rightarrow> collect_loop env ys st1)"
proof (induction xs arbitrary: st)
  case Nil
  show ?case by simp
next
  case (Cons x xs)
  obtain input_file output_location where x: "x = (input_file, output_location)"
    by (cases x)
  show ?case
  proof (cases "get_output env output_location st")
    case None
    with x show ?thesis by simp
  next
    case (Some a)
    obtain r st1 where a: "a = (r, st1)" by (cases a)
    show ?thesis
    proof (cases r)
      case (Inl e)
      with x Some a show ?thesis by simp
    next
      case (Inr body)
      with x Some a show ?thesis by (simp add: Cons.IH)
    qed
  qed
qed

lemma collect_loop_step:
  assumes "get_output env output_location st = Some (Inr body, st1)"
  shows "collect_loop env ((input_file, output_location) # rest) st =
     collect_loop env rest
       (print env (report input_file output_location) (st1\<lparr>output_var := Some body\<rparr>))"
  using assms by simp

lemma collect_loop_success_head:
  assumes "collect_loop env ((input_file, output_location) # rest) st = Some (Inr u, st')"
  shows "\<exists>body st1. get_output env output_location st = Some (Inr body, st1) \<and>
     collect_loop env rest
       (print env (report input_file output_location) (st1\<lparr>output_var := Some body\<rparr>)) =
     Some (Inr u, st')"
  using assms by (auto split: option.splits sum.splits)

lemma collect_loop_shape:
  assumes "collect_loop env xs st = Some (Inr u, st')"
  shows "inferences st' = inferences st \<and>
     (\<exists>ns. length ns = length xs \<and> trace st' = trace st @ collect_events env xs ns)"
  using assms
proof (induction xs arbitrary: st)
  case Nil
  then show ?case by simp
next
  case (Cons x xs)
  obtain input_file output_location where x: "x = (input_file, output_location)"
    by (cases x)
  from Cons.prems x obtain body st1 where
    g: "get_output env output_location st = Some (Inr body, st1)" and
    rest: "collect_loop env xs
       (print env (report input_file output_location) (st1\<lparr>output_var := Some body\<rparr>)) =
     Some (Inr u, st')"
    using collect_loop_success_head by blast
  define st2 where
    "st2 = print env (report input_file output_location) (st1\<lparr>output_var := Some body\<rparr>)"
  from get_output_content_events [OF g] obtain n where
    n: "trace st1 = trace st @
      poll_events (fst (locator env output_location)) (snd (locator env output_location)) n"
    by blast
  have t2: "trace st2 = trace st1 @ [Print (report input_file output_location)]"
    and i2: "inferences st2 = inferences st1"
    by (simp_all add: st2_def print_def effect_def)
  from Cons.IH [of st2] rest obtain ns where
    ns: "inferences st' = inferences st2" "length ns = length xs"
      "trace st' = trace st2 @ collect_events env xs ns"
    by (auto simp: st2_def)
  have "trace st' = trace st @ collect_events env (x # xs) (n # ns)"
    using ns n t2 x by simp
  moreover have "length (n # ns) = length (x # xs)"
    using ns by simp
  moreover have "inferences st' = inferences st"
    using ns i2 get_output_frame [OF g] by simp
  ultimately show ?case by blast
qed


lemma no_submission_in_poll_events: "filter is_submission (poll_events b k n) = []"
  by (induction n) (simp_all add: poll_events_def)

lemma no_submission_in_collect_events: "filter is_submission (collect_events env xs ns) = []"
  by (induction env xs ns rule: collect_events.induct)
     (simp_all add: no_submission_in_poll_events)


lemma collect_loop_inferences:
  "collect_loop env xs st = Some (r, st') \<Longrightarrow> inferences st' = inferences st"
proof (induction xs arbitrary: st)
  case Nil
  then show ?case by simp
next
  case (Cons x xs)
  obtain input_file output_location where x: "x = (input_file, output_location)"
    by (cases x)
  from Cons.prems x obtain a st1 where g: "get_output env output_location st = Some (a, st1)"
    by (cases "get_output env output_location st") auto
  show ?case
  proof (cases a)
    case (Inl e)
    with Cons.prems x g have "st' = st1" by simp
    with get_output_frame [OF g] show ?thesis by simp
  next
    case (Inr body)
    with Cons.prems x g have "collect_loop env xs
        (print env (report input_file output_location) (st1\<lparr>output_var := Some body\<rparr>)) =
        Some (r, st')"
      by simp
    from Cons.IH [OF this] get_output_frame [OF g] show ?thesis
      by (simp add: print_def effect_def)
  qed
qed

lemma length_bulk_range: "length [1..<stop] = stop - 1"
  by simp

lemma batch_cell_success:
  assumes "batch_cell env stop ep b st = Some (Inr (), st')"
  shows "\<exists>locs ns. length locs = stop - 1 \<and> length ns = stop - 1 \<and>
     (\<forall>j<stop - 1. \<exists>r. service env (length (trace st) + j) ep (input_s3_location b)
          ''application/json'' = Inr r \<and> OutputLocation r = locs ! j) \<and>
     inferences st' = map (Pair (input_s3_location b)) locs \<and>
     trace st' = trace st
       @ replicate (stop - 1) (Invoke ep (input_s3_location b) ''application/json'')
       @ [Print banner] @ collect_events env (inferences st') ns"
proof -
  define st0 where "st0 = st\<lparr>inferences := []\<rparr>"
  have t0: "trace st0 = trace st" by (simp add: st0_def)
  from service_run_exists [of "stop - 1" env "length (trace st)" ep "input_s3_location b"
      "''application/json''"]
  obtain k locs e where h: "k \<le> stop - 1" "length locs = k"
      "\<forall>j<k. \<exists>r. service env (length (trace st) + j) ep (input_s3_location b)
          ''application/json'' = Inr r \<and> OutputLocation r = locs ! j"
      "k < stop - 1 \<longrightarrow> service env (length (trace st) + k) ep (input_s3_location b)
          ''application/json'' = Inl e"
    by blast
  have run: "submit_loop env ep b [1..<stop] st0 =
     (if k < length [1..<stop] then Inl e else Inr (),
      st0\<lparr>s3 := evolve env (length (trace st0)) (if k < length [1..<stop] then Suc k else k) (s3 st0),
         trace := trace st0 @ replicate (if k < length [1..<stop] then Suc k else k)
                    (Invoke ep (input_s3_location b) ''application/json''),
         inferences := inferences st0 @ map (Pair (input_s3_location b)) locs\<rparr>)"
    using h by (intro submit_loop_run) (simp_all add: t0)
  have k: "k = stop - 1"
  proof (rule ccontr)
    assume "k \<noteq> stop - 1"
    with h have "k < length [1..<stop]" by simp
    with run assms show False
      by (simp add: batch_cell_def st0_def [symmetric])
  qed
  define st1 where "st1 = snd (submit_loop env ep b [1..<stop] st0)"
  from run k have st1: "trace st1 = trace st @ replicate (stop - 1)
        (Invoke ep (input_s3_location b) ''application/json'')"
      "inferences st1 = map (Pair (input_s3_location b)) locs"
      "fst (submit_loop env ep b [1..<stop] st0) = Inr ()"
    by (simp_all add: st1_def st0_def)
  then have "submit_loop env ep b [1..<stop] st0 = (Inr (), st1)"
    by (metis prod.collapse st1_def)
  with assms have c: "collect_loop env (inferences st1) (print env banner st1) = Some (Inr (), st')"
    by (simp add: batch_cell_def st0_def [symmetric])
  from collect_loop_shape [OF c] obtain ns where
    ns: "inferences st' = inferences (print env banner st1)"
      "length ns = length (inferences st1)"
      "trace st' = trace (print env banner st1) @ collect_events env (inferences st1) ns"
    by blast
  have i: "inferences st' = inferences st1"
    using ns(1) by (simp add: print_def effect_def)
  have "trace st' = trace st
       @ replicate (stop - 1) (Invoke ep (input_s3_location b) ''application/json'')
       @ [Print banner] @ collect_events env (inferences st') ns"
    using ns(3) st1(1) i by (simp add: print_def effect_def)
  moreover have "length ns = stop - 1" "length locs = stop - 1"
    using ns(2) st1(2) h(2) k by simp_all
  moreover have "\<forall>j<stop - 1. \<exists>r. service env (length (trace st) + j) ep (input_s3_location b)
          ''application/json'' = Inr r \<and> OutputLocation r = locs ! j"
    using h(3) k by simp
  moreover have "inferences st' = map (Pair (input_s3_location b)) locs"
    using i st1(2) by simp
  ultimately show ?thesis
    by (intro exI [of _ locs] exI [of _ ns] conjI)
qed

lemma batch_cell_refused:
  assumes "k < stop - 1"
    and "\<forall>j<k. \<exists>r. service env (length (trace st) + j) ep (input_s3_location b)
          ''application/json'' = Inr r"
    and "service env (length (trace st) + k) ep (input_s3_location b) ''application/json'' = Inl e"
  shows "\<exists>st'. batch_cell env stop ep b st = Some (Inl e, st') \<and>
     trace st' = trace st @ replicate (Suc k) (Invoke ep (input_s3_location b) ''application/json'') \<and>
     length (inferences st') = k \<and> output_var st' = output_var st"
proof -
  define st0 where "st0 = st\<lparr>inferences := []\<rparr>"
  have t0: "trace st0 = trace st" by (simp add: st0_def)
  from service_run_exists [of "stop - 1" env "length (trace st)" ep "input_s3_location b"
      "''application/json''"]
  obtain k' locs e' where h: "k' \<le> stop - 1" "length locs = k'"
      "\<forall>j<k'. \<exists>r. service env (length (trace st) + j) ep (input_s3_location b)
          ''application/json'' = Inr r \<and> OutputLocation r = locs ! j"
      "k' < stop - 1 \<longrightarrow> service env (length (trace st) + k') ep (input_s3_location b)
          ''application/json'' = Inl e'"
    by blast
  have "\<not> k' < k"
  proof
    assume "k' < k"
    with assms(1,2) h(4) show False by fastforce
  qed
  moreover have "\<not> k < k'"
  proof
    assume "k < k'"
    with h(3) assms(3) show False by fastforce
  qed
  ultimately have kk: "k' = k" by simp
  with h(4) assms(1,3) have ee: "e' = e" by simp
  have run: "submit_loop env ep b [1..<stop] st0 =
     (if k' < length [1..<stop] then Inl e' else Inr (),
      st0\<lparr>s3 := evolve env (length (trace st0)) (if k' < length [1..<stop] then Suc k' else k') (s3 st0),
         trace := trace st0 @ replicate (if k' < length [1..<stop] then Suc k' else k')
                    (Invoke ep (input_s3_location b) ''application/json''),
         inferences := inferences st0 @ map (Pair (input_s3_location b)) locs\<rparr>)"
    using h by (intro submit_loop_run) (simp_all add: t0)
  with kk ee assms(1) h(2) show ?thesis
    by (simp add: batch_cell_def st0_def [symmetric]) (simp add: st0_def)
qed

lemma submit_loop_first_components:
  "fst ` set (inferences (snd (submit_loop env ep b is st))) \<subseteq>
     fst ` set (inferences st) \<union> {input_s3_location b}"
proof (induction "is" arbitrary: st)
  case Nil
  show ?case by auto
next
  case (Cons i rest)
  show ?case
  proof (cases "service env (length (trace st)) ep (input_s3_location b) ''application/json''")
    case (Inl e)
    then show ?thesis
      by (auto simp: invoke_endpoint_async_def effect_def)
  next
    case (Inr r)
    define st1 where "st1 = (effect env (Invoke ep (input_s3_location b) ''application/json'') st)
      \<lparr>inferences := inferences st @ [(input_s3_location b, OutputLocation r)]\<rparr>"
    have e: "submit_loop env ep b (i # rest) st = submit_loop env ep b rest st1"
      using Inr by (simp add: invoke_endpoint_async_def st1_def effect_def)
    have "fst ` set (inferences st1) \<subseteq> fst ` set (inferences st) \<union> {input_s3_location b}"
      by (auto simp: st1_def)
    with Cons.IH [of st1] show ?thesis
      unfolding e by blast
  qed
qed

lemma spec_result_mapping_snoc:
  "spec_result_mapping (xs @ [(a, v)]) = (spec_result_mapping xs)(a \<mapsto> v)"
  by (simp add: spec_result_mapping_def)

lemma spec_result_mapping_one_key:
  assumes "\<forall>p\<in>set xs. fst p = a" and "xs \<noteq> []"
  shows "dom (spec_result_mapping xs) = {a} \<and> spec_result_mapping xs a = Some (snd (last xs))"
  using assms
proof (induction xs rule: rev_induct)
  case Nil
  then show ?case by simp
next
  case (snoc x xs)
  obtain v where x: "x = (a, v)"
    using snoc.prems by (cases x) auto
  have d: "dom (spec_result_mapping (xs @ [x])) = insert a (dom (spec_result_mapping xs))"
    unfolding x spec_result_mapping_snoc by simp
  have l: "spec_result_mapping (xs @ [x]) a = Some v"
    unfolding x spec_result_mapping_snoc by simp
  have "dom (spec_result_mapping xs) \<subseteq> {a}"
  proof (cases "xs = []")
    case True
    then show ?thesis by (simp add: spec_result_mapping_def)
  next
    case False
    with snoc show ?thesis by simp
  qed
  with d l x show ?case by auto
qed

subsection \<open>The sample runs of the bulk cells\<close>

lemma sample_urlparse_output:
  "sample_urlparse (sample_output t) =
     Inr \<lparr>netloc = ''bkt'', path = ''/async-inference-demo/output/'' @ token t @ ''.out''\<rparr>"
  by (simp add: sample_urlparse_def sample_output_def S3OutputPath_def bucket_prefix_def)

lemma get_output_at_once:
  assumes "urlparse env output_location = Inr u"
    and "outside env = (\<lambda>t s (b, k). Some (''summary of '' @ k))"
  shows "get_output env output_location st =
     Some (case s3_failure env (length (trace st)) of
             None \<Rightarrow> Inr (''summary of '' @ drop 1 (path u))
           | Some e \<Rightarrow> if e = ClientError ''NoSuchKey''
               then Inr (''summary of '' @ drop 1 (path u)) else Inl e,
           effect env (ReadS3 (netloc u) (drop 1 (path u))) st)
     \<or> s3_failure env (length (trace st)) = Some (ClientError ''NoSuchKey'')"
proof (cases "s3_failure env (length (trace st)) = Some (ClientError ''NoSuchKey'')")
  case True
  then show ?thesis by simp
next
  case False
  have rd: "read_s3_file env (netloc u) (drop 1 (path u)) st =
      (case s3_failure env (length (trace st)) of
         None \<Rightarrow> Inr (''summary of '' @ drop 1 (path u)) | Some e \<Rightarrow> Inl e,
       effect env (ReadS3 (netloc u) (drop 1 (path u))) st)"
    using assms(2) by (simp add: read_s3_file_def effect_def split: option.splits)
  with False have "fst (read_s3_file env (netloc u) (drop 1 (path u)) st) \<noteq> not_found"
    by (auto simp: not_found_def split: option.splits)
  then have "get_output_loop env (netloc u) (drop 1 (path u)) st =
      Some (read_s3_file env (netloc u) (drop 1 (path u)) st)"
    by (rule loop_return)
  with assms(1) rd False show ?thesis
    by (auto simp: get_output_parsed split: option.splits)
qed

lemma prompt_get_output:
  "get_output prompt_env (sample_output t) st =
     Some (Inr (''summary of async-inference-demo/output/'' @ token t @ ''.out''),
           effect prompt_env
             (ReadS3 ''bkt'' (''async-inference-demo/output/'' @ token t @ ''.out'')) st)"
proof -
  have "urlparse prompt_env (sample_output t) =
      Inr \<lparr>netloc = ''bkt'', path = ''/async-inference-demo/output/'' @ token t @ ''.out''\<rparr>"
    by (simp add: prompt_env_def sample_urlparse_output)
  from get_output_at_once [OF this, of st] show ?thesis
    by (simp add: prompt_env_def)
qed

lemma accepting_submit_loop:
  assumes "\<forall>t ep inp ct. service env t ep inp ct = Inr \<lparr>OutputLocation = sample_output t\<rparr>"
  shows "submit_loop env ep b is st =
     (Inr (),
      st\<lparr>s3 := evolve env (length (trace st)) (length is) (s3 st),
         trace := trace st @ replicate (length is)
                    (Invoke ep (input_s3_location b) ''application/json''),
         inferences := inferences st @
            map (Pair (input_s3_location b))
              (map (\<lambda>j. sample_output (length (trace st) + j)) [0..<length is])\<rparr>)"
  using submit_loop_run [of "length is" "is"
      "map (\<lambda>j. sample_output (length (trace st) + j)) [0..<length is]" env st ep b undefined]
    assms
  by simp

lemma prompt_collect_loop:
  assumes "\<forall>p\<in>set xs. \<exists>t. snd p = sample_output t"
  shows "\<exists>st'. collect_loop prompt_env xs st = Some (Inr (), st')"
  using assms
proof (induction xs arbitrary: st)
  case Nil
  show ?case by simp
next
  case (Cons x xs)
  then obtain input_file t where x: "x = (input_file, sample_output t)"
    by (cases x) auto
  from Cons.prems have "\<forall>p\<in>set xs. \<exists>t. snd p = sample_output t" by simp
  from Cons.IH [OF this] x show ?case
    by (simp add: prompt_get_output)
qed

lemma prompt_batch_cell:
  "\<exists>st'. batch_cell prompt_env stop ep b st = Some (Inr (), st')"
proof -
  have acc: "\<forall>t ep inp ct. service prompt_env t ep inp ct = Inr \<lparr>OutputLocation = sample_output t\<rparr>"
    by (simp add: prompt_env_def sample_output_def)
  define st1 where "st1 = snd (submit_loop prompt_env ep b [1..<stop] (st\<lparr>inferences := []\<rparr>))"
  have s: "submit_loop prompt_env ep b [1..<stop] (st\<lparr>inferences := []\<rparr>) = (Inr (), st1)"
    and i: "\<forall>p\<in>set (inferences st1). \<exists>t. snd p = sample_output t"
    unfolding st1_def by (auto simp: accepting_submit_loop [OF acc])
  from prompt_collect_loop [OF i, of "print prompt_env banner st1"] s show ?thesis
    by (simp add: batch_cell_def)
qed




lemma denying_get_output:
  "get_output denying_env (sample_output t) st =
     Some (if length (trace st) = 5 then Inl (ClientError ''AccessDenied'')
           else Inr (''summary of async-inference-demo/output/'' @ token t @ ''.out''),
           effect denying_env
             (ReadS3 ''bkt'' (''async-inference-demo/output/'' @ token t @ ''.out'')) st)"
proof -
  define u where
    "u = \<lparr>netloc = ''bkt'', path = ''/async-inference-demo/output/'' @ token t @ ''.out''\<rparr>"
  have p: "urlparse denying_env (sample_output t) = Inr u"
    by (simp add: denying_env_def prompt_env_def sample_urlparse_output u_def)
  have o: "outside denying_env = (\<lambda>t s (b, k). Some (''summary of '' @ k))"
    by (simp add: denying_env_def prompt_env_def)
  have f: "s3_failure denying_env n =
      (if n = 5 then Some (ClientError ''AccessDenied'') else None)" for n
    by (simp add: denying_env_def)
  have nk: "s3_failure denying_env (length (trace st)) \<noteq> Some (ClientError ''NoSuchKey'')"
    by (simp add: f)
  from get_output_at_once [OF p o, of st] nk
  have "get_output denying_env (sample_output t) st =
     Some (case s3_failure denying_env (length (trace st)) of
             None \<Rightarrow> Inr (''summary of '' @ drop 1 (path u))
           | Some e \<Rightarrow> if e = ClientError ''NoSuchKey''
               then Inr (''summary of '' @ drop 1 (path u)) else Inl e,
           effect denying_env (ReadS3 (netloc u) (drop 1 (path u))) st)"
    by blast
  also have "netloc u = ''bkt''"
    by (simp add: u_def)
  also have "drop 1 (path u) = ''async-inference-demo/output/'' @ token t @ ''.out''"
    by (simp add: u_def)
  finally show ?thesis
    by (simp add: f)
qed

lemma sample_range_3: "[1..<3] = [Suc 0, Suc (Suc 0)]"
  by (simp add: upt_rec)

lemma sample_range_2: "[0..<2] = [0, Suc 0]"
  by (simp add: upt_rec)

section \<open>The batch coordinator\<close>

text \<open>
  C3. The cell headed "Trigger 10 asynchronous requests on a single instance" loops over
  \<^verbatim>\<open>range(1,10)\<close>, which has nine values. Run against a service that accepts every
  submission and a store in which every result is present, the cell completes with nine
  entries in \<^verbatim>\<open>inferences\<close> and nine submissions among its events, not ten.
\<close>

theorem trigger_10_cell_submits_9:
  "map_option (\<lambda>p. (fst p, length (inferences (snd p)),
                    length (filter is_submission (trace (snd p)))))
     (trigger_10_cell prompt_env ''summarizer'' ''bkt'' empty_state) = Some (Inr (), 9, 9)"
proof -
  from prompt_batch_cell obtain st' where
    ret: "batch_cell prompt_env 10 ''summarizer'' ''bkt'' empty_state = Some (Inr (), st')"
    by blast
  from batch_cell_success [OF ret] obtain locs ns where
    h: "length locs = 10 - 1" "inferences st' = map (Pair (input_s3_location ''bkt'')) locs"
      "trace st' = trace empty_state
         @ replicate (10 - 1) (Invoke ''summarizer'' (input_s3_location ''bkt'') ''application/json'')
         @ [Print banner] @ collect_events prompt_env (inferences st') ns"
    by blast
  have "length (filter is_submission (trace st')) = 9"
    by (simp add: h(3) empty_state_def no_submission_in_collect_events)
  moreover have "length (inferences st') = 9"
    using h(1,2) by simp
  ultimately show ?thesis
    using ret by (simp add: trigger_10_cell_def)
qed

text \<open>
  The cell headed "Trigger 1000 asynchronous invocations" has the same bound: on the same
  sample run it makes 999 submissions.
\<close>

lemma trigger_1000_cell_submits_999:
  "map_option (\<lambda>p. (fst p, length (inferences (snd p)),
                    length (filter is_submission (trace (snd p)))))
     (trigger_1000_cell prompt_env ''summarizer'' ''bkt'' empty_state) = Some (Inr (), 999, 999)"
proof -
  from prompt_batch_cell obtain st' where
    ret: "batch_cell prompt_env 1000 ''summarizer'' ''bkt'' empty_state = Some (Inr (), st')"
    by blast
  from batch_cell_success [OF ret] obtain locs ns where
    h: "length locs = 1000 - 1" "inferences st' = map (Pair (input_s3_location ''bkt'')) locs"
      "trace st' = trace empty_state
         @ replicate (1000 - 1) (Invoke ''summarizer'' (input_s3_location ''bkt'') ''application/json'')
         @ [Print banner] @ collect_events prompt_env (inferences st') ns"
    by blast
  have "length (filter is_submission (trace st')) = 999"
    by (simp add: h(3) empty_state_def no_submission_in_collect_events)
  moreover have "length (inferences st') = 999"
    using h(1,2) by simp
  ultimately show ?thesis
    using ret by (simp add: trigger_1000_cell_def)
qed



text \<open>
  C5. If submission \<open>k\<close> is the first that the service refuses, with exception \<open>e\<close>, the
  bulk cell ends with \<open>e\<close> after exactly \<open>k + 1\<close> submissions and nothing else: no read,
  no message, \<^verbatim>\<open>output\<close> untouched. If every submission is accepted and the poll of some
  entry raises \<open>e\<close> after the entries before it were collected, the cell ends with \<open>e\<close>
  in the state in which that poll raised: the entries after it are never polled.
\<close>

theorem batch_aborts_on_first_error:
  "(k < stop - 1 \<and>
    (\<forall>j<k. \<exists>r. service env (length (trace st) + j) ep (input_s3_location b)
        ''application/json'' = Inr r) \<and>
    service env (length (trace st) + k) ep (input_s3_location b) ''application/json'' = Inl e
    \<longrightarrow> (\<exists>st'. batch_cell env stop ep b st = Some (Inl e, st') \<and>
           trace st' = trace st
             @ replicate (Suc k) (Invoke ep (input_s3_location b) ''application/json'') \<and>
           length (inferences st') = k \<and> output_var st' = output_var st))
   \<and> (submit_loop env ep b [1..<stop] (st\<lparr>inferences := []\<rparr>) = (Inr (), st1) \<and>
      inferences st1 = xs @ (input_file, output_location) # ys \<and>
      collect_loop env xs (print env banner st1) = Some (Inr (), st2) \<and>
      get_output env output_location st2 = Some (Inl e, st3)
      \<longrightarrow> batch_cell env stop ep b st = Some (Inl e, st3))"
proof (intro conjI impI)
  assume "k < stop - 1 \<and>
    (\<forall>j<k. \<exists>r. service env (length (trace st) + j) ep (input_s3_location b)
        ''application/json'' = Inr r) \<and>
    service env (length (trace st) + k) ep (input_s3_location b) ''application/json'' = Inl e"
  then show "\<exists>st'. batch_cell env stop ep b st = Some (Inl e, st') \<and>
           trace st' = trace st
             @ replicate (Suc k) (Invoke ep (input_s3_location b) ''application/json'') \<and>
           length (inferences st') = k \<and> output_var st' = output_var st"
    by (intro batch_cell_refused) auto
next
  assume h: "submit_loop env ep b [1..<stop] (st\<lparr>inferences := []\<rparr>) = (Inr (), st1) \<and>
      inferences st1 = xs @ (input_file, output_location) # ys \<and>
      collect_loop env xs (print env banner st1) = Some (Inr (), st2) \<and>
      get_output env output_location st2 = Some (Inl e, st3)"
  then have "collect_loop env ((input_file, output_location) # ys) st2 = Some (Inl e, st3)"
    by simp
  with h have "collect_loop env (inferences st1) (print env banner st1) = Some (Inl e, st3)"
    by (simp add: collect_loop_append)
  with h show "batch_cell env stop ep b st = Some (Inl e, st3)"
    by (simp add: batch_cell_def)
qed

theorem batch_aborts_on_first_error_witness:
  "map_option (\<lambda>p. (fst p, trace (snd p)))
     (batch_cell refusing_env 10 ''summarizer'' ''bkt'' empty_state) =
     Some (Inl (ClientError ''ThrottlingException''),
           replicate 3 (Invoke ''summarizer'' (input_s3_location ''bkt'') ''application/json''))
   \<and> map_option fst (batch_cell denying_env 3 ''summarizer'' ''bkt'' empty_state) =
     Some (Inl (ClientError ''AccessDenied''))"
proof -
  let ?inp = "input_s3_location ''bkt''"
  have acc: "\<forall>t ep inp ct. service denying_env t ep inp ct = Inr \<lparr>OutputLocation = sample_output t\<rparr>"
    by (simp add: denying_env_def prompt_env_def sample_output_def)
  define st0 where "st0 = empty_state\<lparr>inferences := []\<rparr>"
  define st1 where "st1 = snd (submit_loop denying_env ''summarizer'' ''bkt'' [1..<3] st0)"
  define st1b where "st1b = print denying_env banner st1"
  define st2 where "st2 = print denying_env (report ?inp (sample_output 0))
      ((effect denying_env (ReadS3 ''bkt'' (''async-inference-demo/output/'' @ token 0 @ ''.out'')) st1b)
       \<lparr>output_var := Some (''summary of async-inference-demo/output/'' @ token 0 @ ''.out'')\<rparr>)"
  define st3 where "st3 = effect denying_env
      (ReadS3 ''bkt'' (''async-inference-demo/output/'' @ token (Suc 0) @ ''.out'')) st2"
  have f1: "submit_loop denying_env ''summarizer'' ''bkt'' [1..<3] st0 = (Inr (), st1)"
    unfolding st1_def by (simp add: accepting_submit_loop [OF acc])
  have t1: "trace st1 = replicate 2 (Invoke ''summarizer'' ?inp ''application/json'')"
    and f2: "inferences st1 = [(?inp, sample_output 0)] @ (?inp, sample_output (Suc 0)) # []"
    unfolding st1_def
    by (simp_all add: accepting_submit_loop [OF acc] st0_def empty_state_def sample_range_3
        sample_range_2)
  have l1b: "length (trace st1b) = 3"
    by (simp add: st1b_def print_def effect_def t1)
  have f3: "collect_loop denying_env [(?inp, sample_output 0)] st1b = Some (Inr (), st2)"
    by (simp add: denying_get_output l1b st2_def)
  have l2: "length (trace st2) = 5"
    by (simp add: st2_def print_def effect_def l1b)
  have f4: "get_output denying_env (sample_output (Suc 0)) st2 =
      Some (Inl (ClientError ''AccessDenied''), st3)"
    by (simp add: denying_get_output l2 st3_def)
  note abort = batch_aborts_on_first_error
  have b: "batch_cell denying_env 3 ''summarizer'' ''bkt'' empty_state =
      Some (Inl (ClientError ''AccessDenied''), st3)"
    using abort [where env = denying_env and stop = 3 and ep = "''summarizer''" and b = "''bkt''"
        and st = empty_state and ?st1.0 = st1 and xs = "[(?inp, sample_output 0)]"
        and input_file = ?inp and output_location = "sample_output (Suc 0)" and ys = "[]"
        and ?st2.0 = st2 and ?st3.0 = st3 and e = "ClientError ''AccessDenied''" and k = 0]
      f1 f2 f3 f4
    by (simp add: st0_def st1b_def del: collect_loop.simps)
  have h1: "\<forall>j<2. \<exists>r. service refusing_env (length (trace empty_state) + j) ''summarizer'' ?inp
        ''application/json'' = Inr r"
    by (simp add: refusing_env_def prompt_env_def empty_state_def)
  have h2: "service refusing_env (length (trace empty_state) + 2) ''summarizer'' ?inp
        ''application/json'' = Inl (ClientError ''ThrottlingException'')"
    by (simp add: refusing_env_def empty_state_def)
  have "\<exists>st'. batch_cell refusing_env 10 ''summarizer'' ''bkt'' empty_state =
        Some (Inl (ClientError ''ThrottlingException''), st') \<and>
      trace st' = trace empty_state @ replicate (Suc 2) (Invoke ''summarizer'' ?inp ''application/json'')
      \<and> length (inferences st') = 2 \<and> output_var st' = output_var empty_state"
    using abort [where env = refusing_env and stop = 10 and ep = "''summarizer''" and b = "''bkt''"
        and st = empty_state and k = 2 and e = "ClientError ''ThrottlingException''"
        and ?st1.0 = empty_state and xs = "[]" and ys = "[]" and input_file = "[]"
        and output_location = "[]" and ?st2.0 = empty_state and ?st3.0 = empty_state]
      h1 h2
    by simp
  then obtain st' where
    "batch_cell refusing_env 10 ''summarizer'' ''bkt'' empty_state =
        Some (Inl (ClientError ''ThrottlingException''), st')"
    "trace st' = replicate 3 (Invoke ''summarizer'' ?inp ''application/json'')"
    by (auto simp: empty_state_def numeral_3_eq_3)
  with b show ?thesis by simp
qed




text \<open>
  C10. Every entry the submission loop appends has \<^verbatim>\<open>input_s3_location\<close> as its first
  component, for every range and every outcome; so has every entry of the record a bulk
  cell leaves behind, and a mapping keyed by the first component and filled from a
  non-empty such record has that single key, bound to what the last entry carries.
\<close>

theorem batch_record_has_one_input_key:
  "(\<forall>p\<in>set (inferences (snd (submit_loop env ep b is (st\<lparr>inferences := []\<rparr>)))).
       fst p = input_s3_location b)
   \<and> (batch_cell env stop ep b st = Some (r, st') \<longrightarrow>
        (\<forall>p\<in>set (inferences st'). fst p = input_s3_location b) \<and>
        (inferences st' \<noteq> [] \<longrightarrow>
           dom (spec_result_mapping (inferences st')) = {input_s3_location b} \<and>
           spec_result_mapping (inferences st') (input_s3_location b) =
             Some (snd (last (inferences st')))))"
proof (intro conjI impI)
  have sub: "\<forall>p\<in>set (inferences (snd (submit_loop env ep b is (st\<lparr>inferences := []\<rparr>)))).
       fst p = input_s3_location b" for "is"
    using submit_loop_first_components [of env ep b "is" "st\<lparr>inferences := []\<rparr>"] by auto
  show "\<forall>p\<in>set (inferences (snd (submit_loop env ep b is (st\<lparr>inferences := []\<rparr>)))).
       fst p = input_s3_location b"
    by (rule sub)
  assume ret: "batch_cell env stop ep b st = Some (r, st')"
  obtain a st1 where s: "submit_loop env ep b [1..<stop] (st\<lparr>inferences := []\<rparr>) = (a, st1)"
    by (cases "submit_loop env ep b [1..<stop] (st\<lparr>inferences := []\<rparr>)")
  have "inferences st' = inferences st1"
  proof (cases a)
    case (Inl e)
    with ret s show ?thesis by (simp add: batch_cell_def)
  next
    case (Inr u)
    with ret s have "collect_loop env (inferences st1) (print env banner st1) = Some (r, st')"
      by (simp add: batch_cell_def)
    from collect_loop_inferences [OF this] show ?thesis
      by (simp add: print_def effect_def)
  qed
  with sub [of "[1..<stop]"] s
  show all: "\<forall>p\<in>set (inferences st'). fst p = input_s3_location b"
    by simp
  assume "inferences st' \<noteq> []"
  with all spec_result_mapping_one_key [of "inferences st'" "input_s3_location b"]
  show "dom (spec_result_mapping (inferences st')) = {input_s3_location b}"
    and "spec_result_mapping (inferences st') (input_s3_location b) =
             Some (snd (last (inferences st')))"
    by simp_all
qed

theorem batch_record_has_one_input_key_witness:
  "map_option (\<lambda>p. dom (spec_result_mapping (inferences (snd p))))
     (batch_cell prompt_env 3 ''summarizer'' ''bkt'' empty_state) =
     Some {input_s3_location ''bkt''}"
proof -
  from prompt_batch_cell obtain st' where
    ret: "batch_cell prompt_env 3 ''summarizer'' ''bkt'' empty_state = Some (Inr (), st')"
    by blast
  from batch_cell_success [OF ret] have "length (inferences st') = 2"
    by auto
  then have ne: "inferences st' \<noteq> []" by auto
  from batch_record_has_one_input_key
    [of prompt_env "''summarizer''" "''bkt''" "[]" empty_state 3 "Inr ()" st'] ret ne
  have "dom (spec_result_mapping (inferences st')) = {input_s3_location ''bkt''}"
    by blast
  with ret show ?thesis by simp
qed

end
